theory Spec2Isabelle
  imports Complex_Main
begin

section \<open>Strings and constants of \<^verbatim>\<open>main.py\<close>\<close>

text \<open>
  A Python \<^verbatim>\<open>str\<close> is modelled by the list of bytes of its UTF-8 encoding
  (\<^typ>\<open>string\<close>). The program only compares strings for equality, tests them for
  emptiness and concatenates them; UTF-8 encoding is injective and commutes with
  concatenation, so nothing is lost. Non-ASCII letters of the Vietnamese literals appear
  as their bytes.

  Diagnostic \<^verbatim>\<open>print\<close> calls write to standard output only and are left out: no
  returned value depends on them.
\<close>

definition Su_nghiep :: string where
  "Su_nghiep = ''S'' @ [CHR 0xE1, CHR 0xBB, CHR 0xB1] @ '' nghi'' @ [CHR 0xE1, CHR 0xBB, CHR 0x87] @ ''p''"

definition Cong_viec :: string where
  "Cong_viec = ''C'' @ [CHR 0xC3, CHR 0xB4] @ ''ng vi'' @ [CHR 0xE1, CHR 0xBB, CHR 0x87] @ ''c''"

definition Tinh_duyen :: string where
  "Tinh_duyen = ''T'' @ [CHR 0xC3, CHR 0xAC] @ ''nh duy'' @ [CHR 0xC3, CHR 0xAA] @ ''n''"

definition Tinh_yeu :: string where
  "Tinh_yeu = ''T'' @ [CHR 0xC3, CHR 0xAC] @ ''nh y'' @ [CHR 0xC3, CHR 0xAA] @ ''u''"

definition Gia_dao :: string where
  "Gia_dao = ''Gia '' @ [CHR 0xC4, CHR 0x91, CHR 0xE1, CHR 0xBA, CHR 0xA1] @ ''o''"

definition Suc_khoe :: string where
  "Suc_khoe = ''S'' @ [CHR 0xE1, CHR 0xBB, CHR 0xA9] @ ''c kh'' @ [CHR 0xE1, CHR 0xBB, CHR 0x8F] @ ''e''"

definition Tai_loc :: string where
  "Tai_loc = ''T'' @ [CHR 0xC3, CHR 0xA0] @ ''i l'' @ [CHR 0xE1, CHR 0xBB, CHR 0x99] @ ''c''"

definition Tien_bac :: string where
  "Tien_bac = ''Ti'' @ [CHR 0xE1, CHR 0xBB, CHR 0x81] @ ''n b'' @ [CHR 0xE1, CHR 0xBA, CHR 0xA1] @ ''c''"

definition Tong_quat :: string where
  "Tong_quat = ''T'' @ [CHR 0xE1, CHR 0xBB, CHR 0x95] @ ''ng qu'' @ [CHR 0xC3, CHR 0xA1] @ ''t''"

definition Khac :: string where
  "Khac = ''Kh'' @ [CHR 0xC3, CHR 0xA1] @ ''c''"

text \<open>The dictionary \<^verbatim>\<open>LABEL_MAPPING\<close> (its ten keys are pairwise different).\<close>

definition LABEL_MAPPING :: "string \<rightharpoonup> string" where
  "LABEL_MAPPING = map_of
     [(Su_nghiep, ''S0''),
      (Cong_viec, ''S0''),
      (Tinh_duyen, ''S1''),
      (Tinh_yeu, ''S1''),
      (Gia_dao, ''S1''),
      (Suc_khoe, ''S2''),
      (Tai_loc, ''S3''),
      (Tien_bac, ''S3''),
      (Tong_quat, ''S4''),
      (Khac, ''S4'')]"

definition CANDIDATE_LABELS :: "string list" where
  "CANDIDATE_LABELS = [Su_nghiep, Tinh_duyen, Suc_khoe, Tai_loc, Tong_quat]"

text \<open>The default reassurance of line 136.\<close>

definition default_answer :: string where
  "default_answer =
     ''V'' @ [CHR 0xC5, CHR 0xA9] @ '' tr'' @ [CHR 0xE1, CHR 0xBB, CHR 0xA5] @ '' '' @
     [CHR 0xC4, CHR 0x91] @ ''ang g'' @ [CHR 0xE1, CHR 0xBB, CHR 0xAD] @ ''i t'' @
     [CHR 0xC3, CHR 0xAD] @ ''n hi'' @ [CHR 0xE1, CHR 0xBB, CHR 0x87] @ ''u nhi'' @
     [CHR 0xE1, CHR 0xBB, CHR 0x85] @ ''u, nh'' @ [CHR 0xC6, CHR 0xB0] @ ''ng h'' @
     [CHR 0xC3, CHR 0xA3] @ ''y tin r'' @ [CHR 0xE1, CHR 0xBA, CHR 0xB1] @ ''ng m'' @
     [CHR 0xE1, CHR 0xBB, CHR 0x8D] @ ''i '' @ [CHR 0xC4, CHR 0x91] @ ''i'' @
     [CHR 0xE1, CHR 0xBB, CHR 0x81] @ ''u t'' @ [CHR 0xE1, CHR 0xBB, CHR 0x91] @ ''t '' @
     [CHR 0xC4, CHR 0x91, CHR 0xE1, CHR 0xBA, CHR 0xB9] @ ''p s'' @
     [CHR 0xE1, CHR 0xBA, CHR 0xBD] @ '' '' @
     [CHR 0xC4, CHR 0x91, CHR 0xE1, CHR 0xBA, CHR 0xBF] @ ''n.''"

text \<open>The literal fragments of the f-string of line 141.\<close>

definition Gia_chu :: string where
  "Gia_chu = ''Gia ch'' @ [CHR 0xE1, CHR 0xBB, CHR 0xA7] @ '' ''"

definition Sinh_nam :: string where
  "Sinh_nam = '', Sinh n'' @ [CHR 0xC4, CHR 0x83] @ ''m ''"

text \<open>\<^verbatim>\<open>str(i)\<close> for a Python integer: decimal digits, a minus sign when negative.\<close>

fun digits :: "nat \<Rightarrow> string" where
  "digits n =
     (if n < 10 then [char_of (48 + n)]
      else digits (n div 10) @ [char_of (48 + n mod 10)])"

declare digits.simps [simp del]

definition str_int :: "int \<Rightarrow> string" where
  "str_int i = (if i < 0 then ''-'' @ digits (nat (- i)) else digits (nat i))"

text \<open>\<^verbatim>\<open>sep.join(xs)\<close>.\<close>

fun str_join :: "string \<Rightarrow> string list \<Rightarrow> string" where
  "str_join sep [] = []"
| "str_join sep [x] = x"
| "str_join sep (x # y # ys) = x @ sep @ str_join sep (y # ys)"

section \<open>The environment of a request\<close>

datatype error = KeyError | IndexError | RequestError

text \<open>
  The zero-shot pipeline is called as
  \<^verbatim>\<open>classifier(question, CANDIDATE_LABELS, multi_label=True)\<close>. It either raises,
  or returns a dictionary whose \<^verbatim>\<open>'labels'\<close> and \<^verbatim>\<open>'scores'\<close> entries are a list
  of strings and a list of floats. A float is modelled by the real number it denotes;
  the literal \<^verbatim>\<open>0.6\<close> denotes the double nearest to \<open>6/10\<close>, which lies just below
  it with no double in between, so \<^verbatim>\<open>score > 0.6\<close> on doubles agrees with the
  comparison against \<open>6/10\<close> on the reals.
\<close>

datatype clf_result = Raised | Returned "string list" "real list"

text \<open>
  An item of \<^verbatim>\<open>ANSWERS_DATA\<close>, a JSON object: the value under \<^verbatim>\<open>"status"\<close>
  and the list under \<^verbatim>\<open>"answers"\<close>, each \<open>None\<close> when the key is absent.
\<close>

record category =
  status :: "string option"
  answers :: "string list option"

text \<open>
  What a request reads from outside: the module-level \<^verbatim>\<open>classifier\<close> (\<open>None\<close> when
  the model could not be loaded), the table \<^verbatim>\<open>ANSWERS_DATA\<close>, the year of
  \<^verbatim>\<open>datetime.now()\<close>, the order in which the runtime enumerates a set of strings
  (\<open>hash_order\<close>), the numbers the random generator delivers (\<open>rng k\<close> for the
  \<open>k\<close>-th draw of the request), the environment variable \<^verbatim>\<open>WEBHOOK_URL\<close> and the
  outcome of an HTTP POST to a URL with a payload (\<open>Inl\<close>: the client raised an
  \<^verbatim>\<open>Exception\<close>).
\<close>

record env =
  classifier :: "(string \<Rightarrow> string list \<Rightarrow> clf_result) option"
  ANSWERS_DATA :: "category list"
  current_year :: int
  hash_order :: "string list"
  rng :: "nat \<Rightarrow> nat"
  WEBHOOK_URL :: "string option"
  http_post :: "string \<Rightarrow> string \<Rightarrow> error + unit"

section \<open>\<^verbatim>\<open>get_fortune\<close>\<close>

text \<open>
  The set \<^verbatim>\<open>statuses\<close> is kept as a duplicate-free list in insertion order;
  \<^verbatim>\<open>statuses.add(c)\<close> is \<open>set_add\<close>.
\<close>

definition set_add :: "string \<Rightarrow> string list \<Rightarrow> string list" where
  "set_add c statuses = (if c \<in> set statuses then statuses else statuses @ [c])"

text \<open>The loop of lines 110-115 over \<^verbatim>\<open>zip(result['labels'], result['scores'])\<close>.\<close>

fun classify_loop ::
  "(string \<times> real) list \<Rightarrow> string list \<times> string list \<Rightarrow> string list \<times> string list" where
  "classify_loop [] (statuses, topic_labels) = (statuses, topic_labels)"
| "classify_loop ((label, score) # rest) (statuses, topic_labels) =
     (if score > 0.6 then
        (case LABEL_MAPPING label of
           Some code \<Rightarrow> classify_loop rest (set_add code statuses, topic_labels @ [label])
         | None \<Rightarrow> classify_loop rest (statuses, topic_labels))
      else classify_loop rest (statuses, topic_labels))"

text \<open>
  Lines 100-123: classification inside \<^verbatim>\<open>try\<close> (an exception leaves both
  accumulators as they are; with well-typed labels and scores only the call itself can
  raise), then the fallback to the general topic.
\<close>

definition resolve_statuses :: "env \<Rightarrow> string \<Rightarrow> string list \<times> string list" where
  "resolve_statuses e question =
     (let (statuses, topic_labels) =
            (case classifier e of
               None \<Rightarrow> ([], [])
             | Some clf \<Rightarrow>
                 (case clf question CANDIDATE_LABELS of
                    Raised \<Rightarrow> ([], [])
                  | Returned labels scores \<Rightarrow> classify_loop (zip labels scores) ([], [])))
      in if statuses = [] then (set_add ''S4'' statuses, topic_labels @ [Tong_quat])
         else (statuses, topic_labels))"

text \<open>
  \<^verbatim>\<open>for status in statuses\<close>: CPython enumerates a set of strings in an order that
  depends on the hash seed of the process. Here the elements come in the order of
  \<open>hash_order\<close>, followed by those it does not mention; every order of the set
  arises from some \<open>hash_order\<close>.
\<close>

definition set_iter :: "string list \<Rightarrow> string list \<Rightarrow> string list" where
  "set_iter order statuses =
     filter (\<lambda>c. c \<in> set statuses) (remdups order) @ filter (\<lambda>c. c \<notin> set order) statuses"

text \<open>
  Line 130: \<^verbatim>\<open>next((item for item in ANSWERS_DATA if item["status"] == status), None)\<close>.
  The generator stops at the first match; an item without \<^verbatim>\<open>"status"\<close> met
  before that raises \<^verbatim>\<open>KeyError\<close>.
\<close>

fun category_data :: "category list \<Rightarrow> string \<Rightarrow> error + category option" where
  "category_data [] st = Inr None"
| "category_data (item # items) st =
     (case status item of
        None \<Rightarrow> Inl KeyError
      | Some s \<Rightarrow> if s = st then Inr (Some item) else category_data items st)"

text \<open>
  \<^verbatim>\<open>random.choice(seq)\<close>: \<^verbatim>\<open>IndexError\<close> on an empty sequence, otherwise the
  element at a random index below its length (\<open>r\<close> is the number drawn).
\<close>

definition random_choice :: "nat \<Rightarrow> string list \<Rightarrow> error + string" where
  "random_choice r seq = (if seq = [] then Inl IndexError else Inr (seq ! (r mod length seq)))"

text \<open>
  The loop of lines 128-133; the state is \<^verbatim>\<open>selected_answers\<close> and the number of
  draws made so far. A found item is a dictionary with a key, hence truthy.
\<close>

fun select_loop ::
  "env \<Rightarrow> string list \<Rightarrow> string list \<times> nat \<Rightarrow> error + string list \<times> nat" where
  "select_loop e [] (selected_answers, k) = Inr (selected_answers, k)"
| "select_loop e (st # rest) (selected_answers, k) =
     (case category_data (ANSWERS_DATA e) st of
        Inl err \<Rightarrow> Inl err
      | Inr None \<Rightarrow> select_loop e rest (selected_answers, k)
      | Inr (Some cd) \<Rightarrow>
          (case answers cd of
             None \<Rightarrow> select_loop e rest (selected_answers, k)
           | Some pool \<Rightarrow>
               (case random_choice (rng e k) pool of
                  Inl err \<Rightarrow> Inl err
                | Inr a \<Rightarrow> select_loop e rest (selected_answers @ [a], Suc k))))"

text \<open>Lines 126-136: the loop, then the default when nothing was selected.\<close>

definition select_answers :: "env \<Rightarrow> string list \<Rightarrow> error + string list" where
  "select_answers e statuses =
     (case select_loop e (set_iter (hash_order e) statuses) ([], 0) of
        Inl err \<Rightarrow> Inl err
      | Inr (selected_answers, k) \<Rightarrow>
          Inr (if selected_answers = [] then selected_answers @ [default_answer]
               else selected_answers))"

definition get_fortune :: "env \<Rightarrow> string \<Rightarrow> int \<Rightarrow> string \<Rightarrow> error + string" where
  "get_fortune e name age question =
     (let birth_year = current_year e - age;
          (statuses, topic_labels) = resolve_statuses e question
      in case select_answers e statuses of
           Inl err \<Rightarrow> Inl err
         | Inr selected_answers \<Rightarrow>
             (let combined_answer = str_join '' '' selected_answers;
                  final_response =
                    Gia_chu @ name @ Sinh_nam @ str_int birth_year @ ''. '' @ combined_answer
              in Inr final_response))"

section \<open>\<^verbatim>\<open>send_webhook\<close> and the \<^verbatim>\<open>/result\<close> handler\<close>

text \<open>
  Lines 72-84. The result is the outcome of the coroutine together with the POST
  requests it attempted. An unset or empty \<^verbatim>\<open>WEBHOOK_URL\<close> is falsy; an exception
  of the client is caught by \<^verbatim>\<open>except Exception\<close>.
\<close>

definition send_webhook ::
  "env \<Rightarrow> string \<Rightarrow> int \<Rightarrow> string \<Rightarrow> (error + unit) \<times> (string \<times> string) list" where
  "send_webhook e name age question =
     (case WEBHOOK_URL e of
        None \<Rightarrow> (Inr (), [])
      | Some url \<Rightarrow>
          if url = [] then (Inr (), [])
          else
            (let payload =
                   ''New Fortune Request:'' @ [CHR 0x0A] @ ''Name: '' @ name @
                   [CHR 0x0A] @ ''Age: '' @ str_int age @
                   [CHR 0x0A] @ ''Question: '' @ question
             in case http_post e url payload of
                  Inl err \<Rightarrow> (Inr (), [(url, payload)])
                | Inr u \<Rightarrow> (Inr (), [(url, payload)])))"

text \<open>
  Lines 182-205: the fortune is computed first, the webhook is registered as a background
  task, and the response is built from the fortune; the task runs once the response is
  made. The result is the fortune shown to the user and what the background task did.
\<close>

definition result ::
  "env \<Rightarrow> string \<Rightarrow> int \<Rightarrow> string \<Rightarrow>
     error + string \<times> (error + unit) \<times> (string \<times> string) list" where
  "result e name age question =
     (case get_fortune e name age question of
        Inl err \<Rightarrow> Inl err
      | Inr fortune \<Rightarrow> Inr (fortune, send_webhook e name age question))"

section \<open>Example environments\<close>

text \<open>Concrete environments at which the theorems below are instantiated.\<close>

definition env_low :: env where
  "env_low =
     \<lparr>classifier = Some (\<lambda>q ls. Returned [Tai_loc, Su_nghiep] [0.6, 0.3]),
      ANSWERS_DATA = [\<lparr>status = Some ''S1'', answers = Some [''love'']\<rparr>,
                      \<lparr>status = Some ''S4'', answers = Some [''calm'', ''wait'']\<rparr>],
      current_year = 2024, hash_order = [], rng = (\<lambda>k. 3),
      WEBHOOK_URL = None, http_post = (\<lambda>url payload. Inl RequestError)\<rparr>"

definition env_same :: env where
  "env_same =
     \<lparr>classifier = Some (\<lambda>q ls. Returned [Tinh_duyen, Gia_dao, Tai_loc] [0.8, 0.7, 0.2]),
      ANSWERS_DATA = [\<lparr>status = Some ''S1'', answers = Some [''love'', ''home'']\<rparr>,
                      \<lparr>status = Some ''S4'', answers = Some [''calm'']\<rparr>],
      current_year = 2024, hash_order = [''S4'', ''S1''], rng = (\<lambda>k. 5),
      WEBHOOK_URL = None, http_post = (\<lambda>url payload. Inr ())\<rparr>"

definition env_three :: env where
  "env_three =
     \<lparr>classifier = Some (\<lambda>q ls. Returned [Tinh_duyen, Suc_khoe, Gia_dao] [0.9, 0.8, 0.7]),
      ANSWERS_DATA = [\<lparr>status = Some ''S1'', answers = Some [''love'', ''home'']\<rparr>,
                      \<lparr>status = Some ''S2'', answers = Some [''rest'']\<rparr>],
      current_year = 2024, hash_order = [''S2'', ''S1''], rng = (\<lambda>k. k),
      WEBHOOK_URL = None, http_post = (\<lambda>url payload. Inr ())\<rparr>"

definition env_two :: env where
  "env_two =
     \<lparr>classifier = Some (\<lambda>q ls. Returned [Su_nghiep, Suc_khoe, Tai_loc] [0.7, 0.65, 0.1]),
      ANSWERS_DATA = [\<lparr>status = Some ''S0'', answers = Some [''work'']\<rparr>,
                      \<lparr>status = Some ''S2'', answers = Some [''rest'', ''walk'']\<rparr>],
      current_year = 2024, hash_order = [''S2'', ''S0''], rng = (\<lambda>k. k),
      WEBHOOK_URL = None, http_post = (\<lambda>url payload. Inr ())\<rparr>"

definition env_unmapped :: env where
  "env_unmapped =
     \<lparr>classifier = Some (\<lambda>q ls. Returned [Tai_loc, ''Du lich'', Su_nghiep] [0.91, 0.9, 0.3]),
      ANSWERS_DATA = [\<lparr>status = Some ''S3'', answers = Some [''gold'']\<rparr>],
      current_year = 2024, hash_order = [], rng = (\<lambda>k. 0),
      WEBHOOK_URL = Some ''http://hook'', http_post = (\<lambda>url payload. Inl RequestError)\<rparr>"

definition env_empty_pool :: env where
  "env_empty_pool =
     \<lparr>classifier = None,
      ANSWERS_DATA = [\<lparr>status = Some ''S4'', answers = Some []\<rparr>],
      current_year = 2024, hash_order = [], rng = (\<lambda>k. 0),
      WEBHOOK_URL = None, http_post = (\<lambda>url payload. Inr ())\<rparr>"

section \<open>The classification loop\<close>

lemmas label_defs =
  Su_nghiep_def Cong_viec_def Tinh_duyen_def Tinh_yeu_def Gia_dao_def
  Suc_khoe_def Tai_loc_def Tien_bac_def Tong_quat_def Khac_def

lemma LABEL_MAPPING_ran:
  "LABEL_MAPPING l = Some c \<Longrightarrow> c \<in> {''S0'', ''S1'', ''S2'', ''S3'', ''S4''}"
  unfolding LABEL_MAPPING_def by (auto split: if_splits)

lemma set_add_set: "set (set_add c xs) = insert c (set xs)"
  by (auto simp: set_add_def)

lemma set_add_distinct: "distinct xs \<Longrightarrow> distinct (set_add c xs)"
  by (simp add: set_add_def)

lemma classify_loop_codes:
  "set (fst (classify_loop ps (sts, tls))) =
     set sts \<union> {c. \<exists>(l, s) \<in> set ps. s > 0.6 \<and> LABEL_MAPPING l = Some c}"
proof (induction ps arbitrary: sts tls)
  case Nil
  show ?case by simp
next
  case (Cons p ps)
  obtain l s where p: "p = (l, s)" by (cases p)
  show ?case
    unfolding p by (auto simp: Cons.IH set_add_set split: option.splits)
qed

lemma classify_loop_filter:
  "classify_loop (filter (\<lambda>(l, s). s > 0.6) ps) acc = classify_loop ps acc"
proof (induction ps arbitrary: acc)
  case Nil
  show ?case by simp
next
  case (Cons p ps)
  obtain l s where p: "p = (l, s)" by (cases p)
  obtain sts tls where acc: "acc = (sts, tls)" by (cases acc)
  show ?case
    unfolding p acc using Cons.IH by (auto split: option.splits)
qed

lemma classify_loop_append:
  "classify_loop (ps @ qs) acc = classify_loop qs (classify_loop ps acc)"
proof (induction ps arbitrary: acc)
  case Nil
  show ?case by (cases acc) simp
next
  case (Cons p ps)
  obtain l s where p: "p = (l, s)" by (cases p)
  obtain sts tls where acc: "acc = (sts, tls)" by (cases acc)
  show ?case
    unfolding p acc by (simp add: Cons.IH split: option.splits)
qed

lemma classify_loop_distinct:
  "distinct sts \<Longrightarrow> distinct (fst (classify_loop ps (sts, tls)))"
proof (induction ps arbitrary: sts tls)
  case Nil
  then show ?case by simp
next
  case (Cons p ps)
  obtain l s where p: "p = (l, s)" by (cases p)
  show ?case
    unfolding p using Cons.prems by (auto intro!: Cons.IH set_add_distinct split: option.splits)
qed

lemma resolve_statuses_Returned:
  "resolve_statuses (e\<lparr>classifier := Some (\<lambda>q ls. Returned labels scores)\<rparr>) question =
     (case classify_loop (zip labels scores) ([], []) of
        (statuses, topic_labels) \<Rightarrow>
          if statuses = [] then ([''S4''], topic_labels @ [Tong_quat])
          else (statuses, topic_labels))"
  by (auto simp: resolve_statuses_def set_add_def split: prod.splits)

lemma zip_map_fst_snd: "zip (map fst ps) (map snd ps) = ps"
  by (induction ps) auto

section \<open>Iterating over the status set\<close>

lemma filter_eq_distinct:
  "distinct ys \<Longrightarrow> filter (\<lambda>x. x = c) ys = (if c \<in> set ys then [c] else [])"
  by (induction ys) auto

lemma set_iter_single: "set_iter ord [c] = [c]"
  by (auto simp: set_iter_def filter_eq_distinct)

lemma set_iter_set: "set (set_iter ord xs) = set xs"
  by (auto simp: set_iter_def)

lemma set_iter_distinct: "distinct xs \<Longrightarrow> distinct (set_iter ord xs)"
  by (auto simp: set_iter_def)



lemma count_list_distinct: "distinct xs \<Longrightarrow> x \<in> set xs \<Longrightarrow> count_list xs x = 1"
  by (induction xs) (auto simp: count_list_0_iff)

lemma distinct_singleton: "distinct xs \<Longrightarrow> set xs = {c} \<Longrightarrow> xs = [c]"
  by (cases xs) (auto simp: subset_singleton_iff dest: subset_singletonD)

section \<open>The selection loop\<close>

lemma select_loop_found:
  assumes "category_data (ANSWERS_DATA e) c = Inr (Some cd)" "answers cd = Some pool" "pool \<noteq> []"
  shows "select_loop e (c # rest) (acc, k) =
           select_loop e rest (acc @ [pool ! (rng e k mod length pool)], Suc k)"
  using assms by (simp add: random_choice_def)

lemma nth_mod_mem: "pool \<noteq> [] \<Longrightarrow> pool ! (r mod length pool) \<in> set pool"
  by simp

lemma select_loop_append:
  "select_loop e (xs @ ys) st =
     (case select_loop e xs st of Inl err \<Rightarrow> Inl err | Inr st' \<Rightarrow> select_loop e ys st')"
proof (induction xs arbitrary: st)
  case Nil
  show ?case by (cases st) simp
next
  case (Cons x xs)
  obtain acc k where st: "st = (acc, k)" by (cases st)
  show ?case
    unfolding st by (simp add: Cons.IH split: sum.splits option.splits)
qed

lemma select_loop_grows:
  "select_loop e sts (acc, k) = Inr (sel, k') \<Longrightarrow> length acc \<le> length sel"
proof (induction sts arbitrary: acc k)
  case Nil
  then show ?case by simp
next
  case (Cons st sts)
  from Cons.prems show ?case
    by (auto split: sum.splits option.splits dest!: Cons.IH)
qed

lemma select_loop_visit:
  assumes "category_data (ANSWERS_DATA e) c = Inr (Some cd)" "answers cd = Some pool"
    and "select_loop e (pre @ c # post) ([], 0) = Inr (sel, k')"
  shows "\<exists>before k. select_loop e pre ([], 0) = Inr (before, k) \<and> pool \<noteq> [] \<and>
           select_loop e post (before @ [pool ! (rng e k mod length pool)], Suc k) = Inr (sel, k') \<and>
           sel \<noteq> []"
proof -
  from assms(3) obtain before k where pre: "select_loop e pre ([], 0) = Inr (before, k)"
    and rest: "select_loop e (c # post) (before, k) = Inr (sel, k')"
    by (auto simp: select_loop_append split: sum.splits)
  from rest assms(1,2) have ne: "pool \<noteq> []"
    by (auto simp: random_choice_def split: if_splits)
  with rest assms(1,2)
  have post: "select_loop e post (before @ [pool ! (rng e k mod length pool)], Suc k) = Inr (sel, k')"
    by (simp add: random_choice_def)
  from select_loop_grows[OF post] have "sel \<noteq> []" by auto
  with pre ne post show ?thesis by blast
qed

section \<open>Printing integers and joining strings\<close>

lemma digit_char_inj:
  assumes "a < 10" "b < 10" "char_of (48 + a) = (char_of (48 + b) :: char)"
  shows "a = (b::nat)"
proof -
  have "(of_char (char_of (48 + a) :: char) :: nat) = of_char (char_of (48 + b) :: char)"
    using assms(3) by simp
  then show ?thesis
    using assms(1,2) by (simp add: take_bit_nat_eq_self)
qed

lemma digits_nonempty: "digits n \<noteq> []"
  by (subst digits.simps) simp

lemma digits_inj: "digits n = digits m \<Longrightarrow> n = m"
proof (induction n arbitrary: m rule: digits.induct)
  case (1 n)
  show ?case
  proof (cases "n < 10")
    case n: True
    show ?thesis
    proof (cases "m < 10")
      case True
      with n "1.prems" show ?thesis
        by (subst (asm) digits.simps, subst (asm) (2) digits.simps) (auto dest: digit_char_inj)
    next
      case False
      have "digits m = digits (m div 10) @ [char_of (48 + m mod 10)]"
        using False by (subst digits.simps) simp
      moreover have "digits n = [char_of (48 + n)]"
        using n by (subst digits.simps) simp
      ultimately show ?thesis
        using "1.prems" digits_nonempty[of "m div 10"] by (cases "digits (m div 10)") auto
    qed
  next
    case n: False
    have dn: "digits n = digits (n div 10) @ [char_of (48 + n mod 10)]"
      using n by (subst digits.simps) simp
    show ?thesis
    proof (cases "m < 10")
      case True
      then have "digits m = [char_of (48 + m)]"
        by (subst digits.simps) simp
      with dn "1.prems" digits_nonempty[of "n div 10"] show ?thesis
        by (cases "digits (n div 10)") auto
    next
      case False
      then have dm: "digits m = digits (m div 10) @ [char_of (48 + m mod 10)]"
        by (subst digits.simps) simp
      from dn dm "1.prems" have a: "digits (n div 10) = digits (m div 10)"
        and b: "char_of (48 + n mod 10) = (char_of (48 + m mod 10) :: char)"
        by simp_all
      from "1.IH"[OF n a] have "n div 10 = m div 10" .
      moreover from b have "n mod 10 = m mod 10"
        by (rule digit_char_inj[rotated 2]) simp_all
      ultimately show ?thesis
        by (metis div_mult_mod_eq)
    qed
  qed
qed

lemma digits_no_minus: "CHR ''-'' \<notin> set (digits n)"
proof (induction n rule: digits.induct)
  case (1 n)
  have c: "CHR ''-'' \<noteq> (char_of (48 + d) :: char)" if "d < 10" for d :: nat
  proof
    assume "CHR ''-'' = (char_of (48 + d) :: char)"
    then have "(of_char (CHR ''-'') :: nat) = of_char (char_of (48 + d) :: char)" by simp
    then show False using that by (simp add: take_bit_nat_eq_self)
  qed
  show ?case
  proof (cases "n < 10")
    case True
    then show ?thesis by (subst digits.simps) (simp add: c)
  next
    case False
    with "1.IH" show ?thesis by (subst digits.simps) (simp add: c)
  qed
qed

lemma str_int_inj: "str_int i = str_int j \<Longrightarrow> i = j"
proof -
  assume eq: "str_int i = str_int j"
  have neg: False if "a < 0" "\<not> b < 0" "str_int a = str_int b" for a b
  proof -
    from that have "CHR ''-'' # digits (nat (- a)) = digits (nat b)"
      by (simp add: str_int_def)
    then have "CHR ''-'' \<in> set (digits (nat b))"
      by (metis list.set_intros(1))
    then show False by (simp add: digits_no_minus)
  qed
  show "i = j"
  proof (cases "i < 0"; cases "j < 0")
    assume "i < 0" "j < 0"
    with eq have "nat (- i) = nat (- j)"
      by (auto simp: str_int_def dest: digits_inj)
    with \<open>i < 0\<close> \<open>j < 0\<close> show ?thesis by simp
  next
    assume "i < 0" "\<not> j < 0"
    with neg[of i j] eq show ?thesis by simp
  next
    assume "\<not> i < 0" "j < 0"
    with neg[of j i] eq show ?thesis by simp
  next
    assume "\<not> i < 0" "\<not> j < 0"
    with eq have "nat i = nat j"
      by (auto simp: str_int_def dest: digits_inj)
    with \<open>\<not> i < 0\<close> \<open>\<not> j < 0\<close> show ?thesis by simp
  qed
qed

lemma str_join_snoc: "xs \<noteq> [] \<Longrightarrow> str_join sep (xs @ [x]) = str_join sep xs @ sep @ x"
  by (induction sep xs rule: str_join.induct) auto

lemma str_join_foldl:
  "xs \<noteq> [] \<Longrightarrow> str_join sep xs = foldl (\<lambda>joined a. joined @ sep @ a) (hd xs) (tl xs)"
proof (induction xs rule: rev_induct)
  case Nil
  then show ?case by simp
next
  case (snoc x xs)
  show ?case
  proof (cases "xs = []")
    case True
    then show ?thesis by simp
  next
    case False
    with snoc.IH show ?thesis by (simp add: str_join_snoc)
  qed
qed

section \<open>When the selection succeeds\<close>

text \<open>
  The selection cannot raise when every item of the table has a status and no item holds an
  empty answer list; on an empty table it yields the default answer.
\<close>

lemma select_answers_nonempty: "select_answers e statuses = Inr sel \<Longrightarrow> sel \<noteq> []"
  by (auto simp: select_answers_def split: sum.splits prod.splits if_splits)

lemma category_data_total:
  assumes "\<forall>item \<in> set table. status item \<noteq> None"
  shows "category_data table st = Inr None \<or>
         (\<exists>item \<in> set table. category_data table st = Inr (Some item))"
  using assms by (induction table) (auto split: option.splits)

lemma select_loop_total:
  assumes "\<forall>item \<in> set (ANSWERS_DATA e). status item \<noteq> None \<and> answers item \<noteq> Some []"
  shows "\<exists>sel k'. select_loop e sts (acc, k) = Inr (sel, k')"
proof (induction sts arbitrary: acc k)
  case Nil
  show ?case by simp
next
  case (Cons st sts)
  from assms have "\<forall>item \<in> set (ANSWERS_DATA e). status item \<noteq> None" by blast
  from category_data_total[OF this, of st]
  show ?case
  proof
    assume "category_data (ANSWERS_DATA e) st = Inr None"
    then show ?thesis using Cons.IH by simp
  next
    assume "\<exists>item \<in> set (ANSWERS_DATA e). category_data (ANSWERS_DATA e) st = Inr (Some item)"
    then obtain item where i: "item \<in> set (ANSWERS_DATA e)"
      "category_data (ANSWERS_DATA e) st = Inr (Some item)" by blast
    with assms have ne: "answers item \<noteq> Some []" by blast
    show ?thesis
    proof (cases "answers item")
      case None
      with i(2) show ?thesis using Cons.IH by simp
    next
      case (Some pool)
      with ne have "pool \<noteq> []" by simp
      with i(2) Some show ?thesis using Cons.IH by (simp add: random_choice_def)
    qed
  qed
qed

lemma get_fortune_total:
  assumes "\<forall>item \<in> set (ANSWERS_DATA e). status item \<noteq> None \<and> answers item \<noteq> Some []"
  shows "\<exists>r. get_fortune e name age question = Inr r \<and> r \<noteq> []"
proof -
  obtain statuses topic_labels where r: "resolve_statuses e question = (statuses, topic_labels)"
    by (cases "resolve_statuses e question")
  from select_loop_total[OF assms, of "set_iter (hash_order e) statuses" "[]" 0]
  obtain sel k' where "select_loop e (set_iter (hash_order e) statuses) ([], 0) = Inr (sel, k')"
    by blast
  then show ?thesis
    by (simp add: get_fortune_def r select_answers_def Gia_chu_def)
qed

lemma select_answers_empty_table:
  "ANSWERS_DATA e = [] \<Longrightarrow> select_answers e statuses = Inr [default_answer]"
proof -
  assume t: "ANSWERS_DATA e = []"
  have "select_loop e sts (sel, k) = Inr (sel, k)" for sts sel k
    by (induction sts) (simp_all add: t)
  then show ?thesis by (simp add: select_answers_def)
qed

section \<open>Topic resolution\<close>




lemma resolve_statuses_distinct: "distinct (fst (resolve_statuses e question))"
proof -
  have d: "distinct (fst (classify_loop ps ([], [])))" for ps
    by (rule classify_loop_distinct) simp
  show ?thesis
  proof (cases "classifier e")
    case None
    then show ?thesis by (simp add: resolve_statuses_def set_add_def)
  next
    case (Some clf)
    show ?thesis
    proof (cases "clf question CANDIDATE_LABELS")
      case Raised
      with Some show ?thesis by (simp add: resolve_statuses_def set_add_def)
    next
      case (Returned labels scores)
      obtain sts tls where r: "classify_loop (zip labels scores) ([], []) = (sts, tls)"
        by (cases "classify_loop (zip labels scores) ([], [])")
      from d[of "zip labels scores"] r have "distinct sts" by simp
      with Some Returned r show ?thesis
        by (simp add: resolve_statuses_def set_add_def)
    qed
  qed
qed

lemma resolve_statuses_codes:
  assumes "classifier e = Some clf" "clf question CANDIDATE_LABELS = Returned labels scores"
    and "(l, s) \<in> set (zip labels scores)" "s > 0.6" "LABEL_MAPPING l = Some c"
  shows "set (fst (resolve_statuses e question)) =
           {c'. \<exists>l' s'. (l', s') \<in> set (zip labels scores) \<and> s' > 0.6 \<and> LABEL_MAPPING l' = Some c'}"
proof -
  obtain sts tls where r: "classify_loop (zip labels scores) ([], []) = (sts, tls)"
    by (cases "classify_loop (zip labels scores) ([], [])")
  have codes: "set sts =
      {c'. \<exists>l' s'. (l', s') \<in> set (zip labels scores) \<and> s' > 0.6 \<and> LABEL_MAPPING l' = Some c'}"
    using classify_loop_codes[of "zip labels scores" "[]" "[]"] r by auto
  with assms(3-5) have "c \<in> set sts" by blast
  then have "sts \<noteq> []" by auto
  with assms(1,2) r have "fst (resolve_statuses e question) = sts"
    by (simp add: resolve_statuses_def)
  with codes show ?thesis by simp
qed

text \<open>
  C9. Whatever the classifier does (absent, raising, or returning any labels and scores),
  every status code in the resolved set of \<^verbatim>\<open>get_fortune\<close> is one of
  \<open>S0\<close>, \<open>S1\<close>, \<open>S2\<close>, \<open>S3\<close>, \<open>S4\<close>: the values of
  \<^verbatim>\<open>LABEL_MAPPING\<close> and the fallback.
\<close>

theorem statuses_closed:
  "set (fst (resolve_statuses e question)) \<subseteq> {''S0'', ''S1'', ''S2'', ''S3'', ''S4''}"
proof -
  have loop: "set (fst (classify_loop ps ([], []))) \<subseteq> {''S0'', ''S1'', ''S2'', ''S3'', ''S4''}" for ps
    unfolding classify_loop_codes using LABEL_MAPPING_ran by fastforce
  show ?thesis
  proof (cases "classifier e")
    case None
    then show ?thesis by (simp add: resolve_statuses_def set_add_def)
  next
    case (Some clf)
    show ?thesis
    proof (cases "clf question CANDIDATE_LABELS")
      case Raised
      with Some show ?thesis by (simp add: resolve_statuses_def set_add_def)
    next
      case (Returned labels scores)
      obtain sts tls where r: "classify_loop (zip labels scores) ([], []) = (sts, tls)"
        by (cases "classify_loop (zip labels scores) ([], [])")
      from loop[of "zip labels scores"] r
      have "set sts \<subseteq> {''S0'', ''S1'', ''S2'', ''S3'', ''S4''}" by simp
      with Some Returned r show ?thesis
        by (simp add: resolve_statuses_def set_add_def)
    qed
  qed
qed

text \<open>
  C2. Only label/score pairs with a score strictly above \<open>0.6\<close> reach the resolved
  status set: resolving a classifier result gives the same statuses and topic labels as
  resolving it with every pair of score at most \<open>0.6\<close> removed; the status codes the
  loop collects are exactly the codes of the mapped labels whose score is strictly greater
  than \<open>0.6\<close>; and a pair whose score is exactly \<open>0.6\<close> leaves the loop's state as
  it was.
\<close>

theorem threshold_strict:
  "resolve_statuses (e\<lparr>classifier := Some (\<lambda>q ls. Returned labels scores)\<rparr>) question =
     resolve_statuses
       (e\<lparr>classifier := Some (\<lambda>q ls.
            Returned (map fst (filter (\<lambda>(label, score). score > 0.6) (zip labels scores)))
                     (map snd (filter (\<lambda>(label, score). score > 0.6) (zip labels scores))))\<rparr>)
       question
   \<and> set (fst (classify_loop (zip labels scores) ([], []))) =
       {c. \<exists>label score. (label, score) \<in> set (zip labels scores) \<and> score > 0.6 \<and>
             LABEL_MAPPING label = Some c}
   \<and> classify_loop ((label, 0.6) # rest) acc = classify_loop rest acc"
proof (intro conjI)
  show "resolve_statuses (e\<lparr>classifier := Some (\<lambda>q ls. Returned labels scores)\<rparr>) question =
     resolve_statuses
       (e\<lparr>classifier := Some (\<lambda>q ls.
            Returned (map fst (filter (\<lambda>(label, score). score > 0.6) (zip labels scores)))
                     (map snd (filter (\<lambda>(label, score). score > 0.6) (zip labels scores))))\<rparr>)
       question"
    unfolding resolve_statuses_Returned zip_map_fst_snd classify_loop_filter ..
  show "set (fst (classify_loop (zip labels scores) ([], []))) =
       {c. \<exists>label score. (label, score) \<in> set (zip labels scores) \<and> score > 0.6 \<and>
             LABEL_MAPPING label = Some c}"
    unfolding classify_loop_codes by auto
  show "classify_loop ((label, 0.6) # rest) acc = classify_loop rest acc"
    by (cases acc) simp
qed

text \<open>
  C10. A label that is not a key of \<^verbatim>\<open>LABEL_MAPPING\<close> is skipped, whatever its score:
  the loop's state after it is the state before it, so it adds neither a status code nor a
  topic label, and the resolved statuses and the whole result of \<^verbatim>\<open>get_fortune\<close> are
  those of the classifier output without that label (in particular it causes no failure).
\<close>

theorem unmapped_label_skipped:
  assumes "LABEL_MAPPING label = None" and "length labels1 = length scores1"
  shows "classify_loop (ps @ (label, score) # qs) acc = classify_loop (ps @ qs) acc
    \<and> resolve_statuses
          (e\<lparr>classifier := Some (\<lambda>q ls. Returned (labels1 @ label # labels2) (scores1 @ score # scores2))\<rparr>)
          question =
        resolve_statuses
          (e\<lparr>classifier := Some (\<lambda>q ls. Returned (labels1 @ labels2) (scores1 @ scores2))\<rparr>) question
    \<and> get_fortune
          (e\<lparr>classifier := Some (\<lambda>q ls. Returned (labels1 @ label # labels2) (scores1 @ score # scores2))\<rparr>)
          name age question =
        get_fortune
          (e\<lparr>classifier := Some (\<lambda>q ls. Returned (labels1 @ labels2) (scores1 @ scores2))\<rparr>)
          name age question"
proof -
  have step: "classify_loop ((label, score) # qs) acc = classify_loop qs acc" for qs acc
    using assms(1) by (cases acc) simp
  have loop: "classify_loop (ps @ (label, score) # qs) acc = classify_loop (ps @ qs) acc" for ps qs acc
    by (simp add: classify_loop_append step)
  have z: "zip (labels1 @ label # labels2) (scores1 @ score # scores2) =
      zip labels1 scores1 @ (label, score) # zip labels2 scores2"
    using assms(2) by simp
  have z': "zip (labels1 @ labels2) (scores1 @ scores2) = zip labels1 scores1 @ zip labels2 scores2"
    using assms(2) by simp
  have res: "resolve_statuses
          (e\<lparr>classifier := Some (\<lambda>q ls. Returned (labels1 @ label # labels2) (scores1 @ score # scores2))\<rparr>)
          question =
        resolve_statuses
          (e\<lparr>classifier := Some (\<lambda>q ls. Returned (labels1 @ labels2) (scores1 @ scores2))\<rparr>) question"
    unfolding resolve_statuses_Returned z z' loop ..
  have sel: "select_answers (e\<lparr>classifier := c\<rparr>) sts = select_answers e sts" for c sts
  proof -
    have "select_loop (e\<lparr>classifier := c\<rparr>) xs acc = select_loop e xs acc" for xs acc
      by (induction e xs acc rule: select_loop.induct) (auto split: sum.splits option.splits)
    then show ?thesis by (simp add: select_answers_def)
  qed
  have "get_fortune
          (e\<lparr>classifier := Some (\<lambda>q ls. Returned (labels1 @ label # labels2) (scores1 @ score # scores2))\<rparr>)
          name age question =
        get_fortune
          (e\<lparr>classifier := Some (\<lambda>q ls. Returned (labels1 @ labels2) (scores1 @ scores2))\<rparr>)
          name age question"
    unfolding get_fortune_def res by (simp add: sel)
  with loop res show ?thesis by blast
qed

theorem unmapped_label_skipped_witness:
  "LABEL_MAPPING ''Du lich'' = None \<and>
   resolve_statuses env_unmapped ''q'' = ([''S3''], [Tai_loc]) \<and>
   get_fortune env_unmapped ''An'' 25 ''q'' = Inr (Gia_chu @ ''An'' @ Sinh_nam @ ''1999. gold'')"
proof -
  have h: "LABEL_MAPPING ''Du lich'' = None"
    by (simp add: LABEL_MAPPING_def label_defs)
  have l: "length [Tai_loc] = length [0.91::real]" by simp
  have e: "env_unmapped =
      env_unmapped\<lparr>classifier := Some (\<lambda>q ls. Returned ([Tai_loc] @ ''Du lich'' # [Su_nghiep])
                                                      ([0.91] @ 0.9 # [0.3]))\<rparr>"
    by (simp add: env_unmapped_def)
  have r: "resolve_statuses
             (env_unmapped\<lparr>classifier := Some (\<lambda>q ls. Returned ([Tai_loc] @ [Su_nghiep]) ([0.91] @ [0.3]))\<rparr>)
             ''q'' = ([''S3''], [Tai_loc])"
    by (simp add: resolve_statuses_def LABEL_MAPPING_def label_defs set_add_def)
  have g: "get_fortune
             (env_unmapped\<lparr>classifier := Some (\<lambda>q ls. Returned ([Tai_loc] @ [Su_nghiep]) ([0.91] @ [0.3]))\<rparr>)
             ''An'' 25 ''q'' = Inr (Gia_chu @ ''An'' @ Sinh_nam @ ''1999. gold'')"
    unfolding env_unmapped_def by code_simp
  from unmapped_label_skipped[OF h l, where e = env_unmapped and name = "''An''" and age = 25
      and question = "''q''" and ?labels2.0 = "[Su_nghiep]" and ?scores2.0 = "[0.3]" and score = "0.9"]
  show ?thesis
    unfolding r g e[symmetric] using h by simp
qed



section \<open>Deduplication and multiple topics\<close>

text \<open>
  C5. Whenever two entries of the classifier's output (at two different positions, whatever
  else it returns) both have a score above \<open>0.6\<close> and labels that map to the same
  status code \<open>c\<close>, the resolved status set holds \<open>c\<close> exactly once and the loop over
  the set meets \<open>c\<close> exactly once. Hence, when the table has an answer list for \<open>c\<close> and
  the selection returns, the loop runs over statuses other than \<open>c\<close>, makes one draw from
  that list (which is non-empty), and runs over statuses other than \<open>c\<close> again; the message
  is the greeting with the answers so selected. When moreover every kept label maps to
  \<open>c\<close>, the status set is \<open>c\<close> alone, the loop makes exactly one draw, and the message
  carries that single answer.
\<close>

theorem same_status_once:
  assumes "classifier e = Some clf"
    and "clf question CANDIDATE_LABELS = Returned labels scores"
    and "i < j" and "j < length (zip labels scores)"
    and "zip labels scores ! i = (l1, s1)" and "zip labels scores ! j = (l2, s2)"
    and "s1 > 0.6" and "s2 > 0.6"
    and "LABEL_MAPPING l1 = Some c" and "LABEL_MAPPING l2 = Some c"
  shows "count_list (fst (resolve_statuses e question)) c = 1 \<and>
         count_list (set_iter (hash_order e) (fst (resolve_statuses e question))) c = 1 \<and>
         (\<forall>cd pool selected_answers.
            category_data (ANSWERS_DATA e) c = Inr (Some cd) \<and> answers cd = Some pool \<and>
            select_answers e (fst (resolve_statuses e question)) = Inr selected_answers \<longrightarrow>
            (\<exists>pre post before k k'.
               set_iter (hash_order e) (fst (resolve_statuses e question)) = pre @ c # post \<and>
               c \<notin> set pre \<and> c \<notin> set post \<and>
               select_loop e pre ([], 0) = Inr (before, k) \<and>
               pool \<noteq> [] \<and>
               select_loop e post (before @ [pool ! (rng e k mod length pool)], Suc k) =
                 Inr (selected_answers, k') \<and>
               get_fortune e name age question =
                 Inr (Gia_chu @ name @ Sinh_nam @ str_int (current_year e - age) @ ''. '' @
                      str_join '' '' selected_answers))) \<and>
         ((\<forall>l s c'. (l, s) \<in> set (zip labels scores) \<and> s > 0.6 \<and> LABEL_MAPPING l = Some c' \<longrightarrow>
             c' = c) \<longrightarrow>
          fst (resolve_statuses e question) = [c] \<and>
          (\<forall>cd pool.
             category_data (ANSWERS_DATA e) c = Inr (Some cd) \<and> answers cd = Some pool \<and>
             pool \<noteq> [] \<longrightarrow>
             select_loop e (set_iter (hash_order e) [c]) ([], 0) =
               Inr ([pool ! (rng e 0 mod length pool)], 1) \<and>
             pool ! (rng e 0 mod length pool) \<in> set pool \<and>
             get_fortune e name age question =
               Inr (Gia_chu @ name @ Sinh_nam @ str_int (current_year e - age) @ ''. '' @
                    pool ! (rng e 0 mod length pool))))"
proof -
  let ?sts = "fst (resolve_statuses e question)"
  let ?ord = "set_iter (hash_order e) ?sts"
  have i: "i < length (zip labels scores)" using assms(3,4) by simp
  have m1: "(l1, s1) \<in> set (zip labels scores)"
    using nth_mem[OF i] assms(5) by simp
  have codes: "set ?sts =
      {c'. \<exists>l' s'. (l', s') \<in> set (zip labels scores) \<and> s' > 0.6 \<and> LABEL_MAPPING l' = Some c'}"
    by (rule resolve_statuses_codes[OF assms(1,2) m1 assms(7,9)])
  have mem: "c \<in> set ?sts"
    unfolding codes using m1 assms(7,9) by blast
  have dist: "distinct ?sts" by (rule resolve_statuses_distinct)
  have once: "count_list ?sts c = 1"
    using dist mem by (rule count_list_distinct)
  have dist_ord: "distinct ?ord" using dist by (rule set_iter_distinct)
  have mem_ord: "c \<in> set ?ord" using mem by (simp add: set_iter_set)
  have once_ord: "count_list ?ord c = 1"
    using dist_ord mem_ord by (rule count_list_distinct)
  have general: "\<exists>pre post before k k'.
               ?ord = pre @ c # post \<and> c \<notin> set pre \<and> c \<notin> set post \<and>
               select_loop e pre ([], 0) = Inr (before, k) \<and>
               pool \<noteq> [] \<and>
               select_loop e post (before @ [pool ! (rng e k mod length pool)], Suc k) =
                 Inr (selected_answers, k') \<and>
               get_fortune e name age question =
                 Inr (Gia_chu @ name @ Sinh_nam @ str_int (current_year e - age) @ ''. '' @
                      str_join '' '' selected_answers)"
    if cd: "category_data (ANSWERS_DATA e) c = Inr (Some cd)" and pool: "answers cd = Some pool"
      and sel: "select_answers e ?sts = Inr selected_answers"
    for cd pool selected_answers
  proof -
    from mem_ord obtain pre post where ord: "?ord = pre @ c # post"
      by (auto dest: split_list)
    with dist_ord have notin: "c \<notin> set pre" "c \<notin> set post" by auto
    from sel obtain sel0 k' where loop: "select_loop e ?ord ([], 0) = Inr (sel0, k')"
      and sel_eq: "selected_answers = (if sel0 = [] then sel0 @ [default_answer] else sel0)"
      by (auto simp: select_answers_def split: sum.splits prod.splits)
    from select_loop_visit[OF cd pool loop[unfolded ord]]
    obtain before k where pre: "select_loop e pre ([], 0) = Inr (before, k)"
      and ne: "pool \<noteq> []"
      and post: "select_loop e post (before @ [pool ! (rng e k mod length pool)], Suc k) = Inr (sel0, k')"
      and sel0: "sel0 \<noteq> []"
      by blast
    from sel_eq sel0 have same: "selected_answers = sel0" by simp
    obtain statuses topic_labels where r: "resolve_statuses e question = (statuses, topic_labels)"
      by (cases "resolve_statuses e question")
    with sel have "select_answers e statuses = Inr selected_answers" by simp
    then have g: "get_fortune e name age question =
                 Inr (Gia_chu @ name @ Sinh_nam @ str_int (current_year e - age) @ ''. '' @
                      str_join '' '' selected_answers)"
      by (simp add: get_fortune_def r)
    from ord notin pre ne post[folded same] g show ?thesis by blast
  qed
  have special: "?sts = [c] \<and>
          (\<forall>cd pool.
             category_data (ANSWERS_DATA e) c = Inr (Some cd) \<and> answers cd = Some pool \<and>
             pool \<noteq> [] \<longrightarrow>
             select_loop e (set_iter (hash_order e) [c]) ([], 0) =
               Inr ([pool ! (rng e 0 mod length pool)], 1) \<and>
             pool ! (rng e 0 mod length pool) \<in> set pool \<and>
             get_fortune e name age question =
               Inr (Gia_chu @ name @ Sinh_nam @ str_int (current_year e - age) @ ''. '' @
                    pool ! (rng e 0 mod length pool)))"
    if only: "\<forall>l s c'. (l, s) \<in> set (zip labels scores) \<and> s > 0.6 \<and> LABEL_MAPPING l = Some c' \<longrightarrow> c' = c"
  proof -
    from only mem have "set ?sts = {c}"
      unfolding codes by blast
    with dist have single: "?sts = [c]" by (rule distinct_singleton)
    have "select_loop e (set_iter (hash_order e) [c]) ([], 0) =
               Inr ([pool ! (rng e 0 mod length pool)], 1) \<and>
          get_fortune e name age question =
               Inr (Gia_chu @ name @ Sinh_nam @ str_int (current_year e - age) @ ''. '' @
                    pool ! (rng e 0 mod length pool))"
      if p: "category_data (ANSWERS_DATA e) c = Inr (Some cd)" "answers cd = Some pool" "pool \<noteq> []"
      for cd pool
    proof -
      have loop: "select_loop e [c] ([], 0) = Inr ([pool ! (rng e 0 mod length pool)], Suc 0)"
        using select_loop_found[OF p, of "[]" "[]" 0] by simp
      then have "select_answers e [c] = Inr [pool ! (rng e 0 mod length pool)]"
        by (simp add: select_answers_def set_iter_single)
      moreover obtain statuses topic_labels
        where r: "resolve_statuses e question = (statuses, topic_labels)"
        by (cases "resolve_statuses e question")
      moreover from r single have "statuses = [c]" by simp
      ultimately have "get_fortune e name age question =
               Inr (Gia_chu @ name @ Sinh_nam @ str_int (current_year e - age) @ ''. '' @
                    pool ! (rng e 0 mod length pool))"
        by (simp add: get_fortune_def)
      with loop show ?thesis by (simp add: set_iter_single)
    qed
    with single show ?thesis by (simp add: nth_mod_mem)
  qed
  from once once_ord general special show ?thesis by blast
qed

theorem same_status_once_witness:
  "fst (resolve_statuses env_three ''q'') = [''S1'', ''S2''] \<and>
   count_list (fst (resolve_statuses env_three ''q'')) ''S1'' = 1 \<and>
   count_list (set_iter (hash_order env_three) (fst (resolve_statuses env_three ''q''))) ''S1'' = 1 \<and>
   (\<exists>pre post before k k'.
      set_iter (hash_order env_three) (fst (resolve_statuses env_three ''q'')) = pre @ ''S1'' # post \<and>
      ''S1'' \<notin> set pre \<and> ''S1'' \<notin> set post \<and>
      select_loop env_three pre ([], 0) = Inr (before, k) \<and>
      select_loop env_three post
        (before @ [[''love'', ''home''] ! (rng env_three k mod length [''love'', ''home''])], Suc k) =
        Inr ([''rest'', ''home''], k')) \<and>
   get_fortune env_three ''An'' 25 ''q'' = Inr (Gia_chu @ ''An'' @ Sinh_nam @ ''1999. rest home'') \<and>
   fst (resolve_statuses env_same ''q'') = [''S1''] \<and>
   select_loop env_same (set_iter (hash_order env_same) [''S1'']) ([], 0) = Inr ([''home''], 1) \<and>
   get_fortune env_same ''An'' 25 ''q'' = Inr (Gia_chu @ ''An'' @ Sinh_nam @ ''1999. home'')"
proof -
  have m1: "LABEL_MAPPING Tinh_duyen = Some ''S1''"
    by (simp add: LABEL_MAPPING_def label_defs)
  have m2: "LABEL_MAPPING Gia_dao = Some ''S1''"
    by (simp add: LABEL_MAPPING_def label_defs)
  have y: "str_int (2024 - 25) = ''1999''" by code_simp
  have a1: "classifier env_three = Some (\<lambda>q ls. Returned [Tinh_duyen, Suc_khoe, Gia_dao] [0.9, 0.8, 0.7])"
    by (simp add: env_three_def)
  have a2: "(\<lambda>q ls. Returned [Tinh_duyen, Suc_khoe, Gia_dao] [0.9, 0.8, 0.7]) ''q'' CANDIDATE_LABELS =
      Returned [Tinh_duyen, Suc_khoe, Gia_dao] [0.9, 0.8, 0.7::real]"
    by simp
  have a3: "(0::nat) < 2" by simp
  have a4: "2 < length (zip [Tinh_duyen, Suc_khoe, Gia_dao] [0.9, 0.8, 0.7::real])" by simp
  have a5: "zip [Tinh_duyen, Suc_khoe, Gia_dao] [0.9, 0.8, 0.7::real] ! 0 = (Tinh_duyen, 0.9)" by simp
  have a6: "zip [Tinh_duyen, Suc_khoe, Gia_dao] [0.9, 0.8, 0.7::real] ! 2 = (Gia_dao, 0.7)" by simp
  have a7: "(0.9::real) > 0.6" by simp
  have a8: "(0.7::real) > 0.6" by simp
  have r3: "fst (resolve_statuses env_three ''q'') = [''S1'', ''S2'']"
    unfolding env_three_def by code_simp
  have c3: "category_data (ANSWERS_DATA env_three) ''S1'' =
      Inr (Some \<lparr>status = Some ''S1'', answers = Some [''love'', ''home'']\<rparr>)"
    by (simp add: env_three_def)
  have p3: "answers \<lparr>status = Some ''S1'', answers = Some [''love'', ''home'']\<rparr> = Some [''love'', ''home'']"
    by simp
  have s3: "select_answers env_three (fst (resolve_statuses env_three ''q'')) = Inr [''rest'', ''home'']"
    unfolding env_three_def by code_simp
  have cy3: "current_year env_three = 2024" by (simp add: env_three_def)
  note t3 = same_status_once[OF a1 a2 a3 a4 a5 a6 a7 a8 m1 m2,
      where name = "''An''" and age = 25]
  from t3 have n1: "count_list (fst (resolve_statuses env_three ''q'')) ''S1'' = 1"
    and n2: "count_list (set_iter (hash_order env_three) (fst (resolve_statuses env_three ''q''))) ''S1'' = 1"
    by blast+
  from t3 c3 p3 s3 obtain pre post before k k' where
    d: "set_iter (hash_order env_three) (fst (resolve_statuses env_three ''q'')) = pre @ ''S1'' # post"
      "''S1'' \<notin> set pre" "''S1'' \<notin> set post"
      "select_loop env_three pre ([], 0) = Inr (before, k)"
      "select_loop env_three post
        (before @ [[''love'', ''home''] ! (rng env_three k mod length [''love'', ''home''])], Suc k) =
        Inr ([''rest'', ''home''], k')"
    and g: "get_fortune env_three ''An'' 25 ''q'' =
      Inr (Gia_chu @ ''An'' @ Sinh_nam @ str_int (current_year env_three - 25) @ ''. '' @
           str_join '' '' [''rest'', ''home''])"
    by blast
  from g have g3: "get_fortune env_three ''An'' 25 ''q'' = Inr (Gia_chu @ ''An'' @ Sinh_nam @ ''1999. rest home'')"
    using y by (simp add: cy3)
  have b1: "classifier env_same = Some (\<lambda>q ls. Returned [Tinh_duyen, Gia_dao, Tai_loc] [0.8, 0.7, 0.2])"
    by (simp add: env_same_def)
  have b2: "(\<lambda>q ls. Returned [Tinh_duyen, Gia_dao, Tai_loc] [0.8, 0.7, 0.2]) ''q'' CANDIDATE_LABELS =
      Returned [Tinh_duyen, Gia_dao, Tai_loc] [0.8, 0.7, 0.2::real]"
    by simp
  have b3: "(0::nat) < 1" by simp
  have b4: "1 < length (zip [Tinh_duyen, Gia_dao, Tai_loc] [0.8, 0.7, 0.2::real])" by simp
  have b5: "zip [Tinh_duyen, Gia_dao, Tai_loc] [0.8, 0.7, 0.2::real] ! 0 = (Tinh_duyen, 0.8)" by simp
  have b6: "zip [Tinh_duyen, Gia_dao, Tai_loc] [0.8, 0.7, 0.2::real] ! 1 = (Gia_dao, 0.7)" by simp
  have b7: "(0.8::real) > 0.6" by simp
  have only: "\<forall>l s c'. (l, s) \<in> set (zip [Tinh_duyen, Gia_dao, Tai_loc] [0.8, 0.7, 0.2::real]) \<and>
      s > 0.6 \<and> LABEL_MAPPING l = Some c' \<longrightarrow> c' = ''S1''"
    using m1 m2 by auto
  have c1: "category_data (ANSWERS_DATA env_same) ''S1'' =
      Inr (Some \<lparr>status = Some ''S1'', answers = Some [''love'', ''home'']\<rparr>)"
    by (simp add: env_same_def)
  have ne: "[''love'', ''home''] \<noteq> []" by simp
  have ix: "[''love'', ''home''] ! (rng env_same 0 mod length [''love'', ''home'']) = ''home''"
    unfolding env_same_def by code_simp
  have cy1: "current_year env_same = 2024" by (simp add: env_same_def)
  note t1 = same_status_once[OF b1 b2 b3 b4 b5 b6 b7 a8 m1 m2,
      where name = "''An''" and age = 25]
  from t1 only have r1: "fst (resolve_statuses env_same ''q'') = [''S1'']" by blast
  from t1 only c1 p3 ne
  have "select_loop env_same (set_iter (hash_order env_same) [''S1'']) ([], 0) =
          Inr ([[''love'', ''home''] ! (rng env_same 0 mod length [''love'', ''home''])], 1) \<and>
        get_fortune env_same ''An'' 25 ''q'' =
          Inr (Gia_chu @ ''An'' @ Sinh_nam @ str_int (current_year env_same - 25) @ ''. '' @
               [''love'', ''home''] ! (rng env_same 0 mod length [''love'', ''home'']))"
    by blast
  then have l1: "select_loop env_same (set_iter (hash_order env_same) [''S1'']) ([], 0) = Inr ([''home''], 1)"
    and g1: "get_fortune env_same ''An'' 25 ''q'' = Inr (Gia_chu @ ''An'' @ Sinh_nam @ ''1999. home'')"
    using y by (simp_all only: ix cy1) simp_all
  from r3 n1 n2 d g3 r1 l1 g1 show ?thesis by blast
qed



section \<open>Composition of the message\<close>

text \<open>
  C3 (the code departs from the claim). With the classifier absent the status set is
  \<open>S4\<close>; on a table whose \<open>S4\<close> item holds an empty answer list,
  \<^verbatim>\<open>random.choice\<close> raises \<^verbatim>\<open>IndexError\<close>, in the selection and hence in
  \<^verbatim>\<open>get_fortune\<close>: the guard of line 132 tests that the key is present, not that the
  list is non-empty.
\<close>

theorem empty_answer_list_raises:
  "resolve_statuses env_empty_pool ''q'' = ([''S4''], [Tong_quat]) \<and>
   select_answers env_empty_pool [''S4''] = Inl IndexError \<and>
   get_fortune env_empty_pool ''An'' 25 ''q'' = Inl IndexError"
  unfolding env_empty_pool_def by code_simp

text \<open>
  C4. Whenever the selection for the resolved statuses returns its list of answers, that
  list is non-empty and the result of \<^verbatim>\<open>get_fortune\<close> is the greeting with the name
  and the birth year, a full stop and a space, then the answers joined in their order of
  accumulation with a single space between neighbours (the join written as a left fold).
\<close>

theorem response_format:
  assumes "select_answers e (fst (resolve_statuses e question)) = Inr selected_answers"
  shows "selected_answers \<noteq> [] \<and>
         get_fortune e name age question =
           Inr (''Gia ch'' @ [CHR 0xE1, CHR 0xBB, CHR 0xA7] @ '' '' @ name @
                '', Sinh n'' @ [CHR 0xC4, CHR 0x83] @ ''m '' @ str_int (current_year e - age) @
                ''. '' @ str_join '' '' selected_answers) \<and>
         str_join '' '' selected_answers =
           foldl (\<lambda>joined answer. joined @ '' '' @ answer) (hd selected_answers) (tl selected_answers)"
proof -
  have ne: "selected_answers \<noteq> []"
    using assms by (rule select_answers_nonempty)
  have "get_fortune e name age question =
           Inr (''Gia ch'' @ [CHR 0xE1, CHR 0xBB, CHR 0xA7] @ '' '' @ name @
                '', Sinh n'' @ [CHR 0xC4, CHR 0x83] @ ''m '' @ str_int (current_year e - age) @
                ''. '' @ str_join '' '' selected_answers)"
  proof -
    obtain statuses topic_labels where r: "resolve_statuses e question = (statuses, topic_labels)"
      by (cases "resolve_statuses e question")
    with assms have "select_answers e statuses = Inr selected_answers" by simp
    then show ?thesis
      by (simp add: get_fortune_def r Gia_chu_def Sinh_nam_def)
  qed
  with ne str_join_foldl[OF ne] show ?thesis by blast
qed

theorem response_format_witness:
  "select_answers env_two (fst (resolve_statuses env_two ''q'')) = Inr [''rest'', ''work''] \<and>
   get_fortune env_two ''An'' 25 ''q'' =
     Inr (''Gia ch'' @ [CHR 0xE1, CHR 0xBB, CHR 0xA7] @ '' An, Sinh n'' @ [CHR 0xC4, CHR 0x83] @
          ''m 1999. rest work'')"
proof -
  have h: "select_answers env_two (fst (resolve_statuses env_two ''q'')) = Inr [''rest'', ''work'']"
    unfolding env_two_def by code_simp
  have y: "str_int (current_year env_two - 25) = ''1999''"
    unfolding env_two_def by code_simp
  from response_format[OF h, where name = "''An''" and age = 25] h show ?thesis
    unfolding y by simp
qed

text \<open>
  C7. Every response of \<^verbatim>\<open>get_fortune\<close> shows, after the name, the decimal numeral of
  the current year of the request minus the age, and no other integer prints the same way;
  for the year 2024 and the age 25 it shows 1999.
\<close>

theorem birth_year_derivation:
  assumes "get_fortune e name age question = Inr final_response"
  shows "(\<exists>combined_answer.
            final_response =
              Gia_chu @ name @ Sinh_nam @ str_int (current_year e - age) @ ''. '' @ combined_answer) \<and>
         (\<forall>y. str_int y = str_int (current_year e - age) \<longrightarrow> y = current_year e - age) \<and>
         (current_year e = 2024 \<and> age = 25 \<longrightarrow>
            (\<exists>combined_answer.
               final_response = Gia_chu @ name @ Sinh_nam @ ''1999'' @ ''. '' @ combined_answer))"
proof (intro conjI impI)
  show shown: "\<exists>combined_answer.
            final_response =
              Gia_chu @ name @ Sinh_nam @ str_int (current_year e - age) @ ''. '' @ combined_answer"
    using assms by (auto simp: get_fortune_def split: prod.splits sum.splits)
  show "\<forall>y. str_int y = str_int (current_year e - age) \<longrightarrow> y = current_year e - age"
    by (blast dest: str_int_inj)
  assume "current_year e = 2024 \<and> age = 25"
  then have "current_year e - age = 2024 - 25" by simp
  moreover have "str_int (2024 - 25) = ''1999''" by code_simp
  ultimately have "str_int (current_year e - age) = ''1999''" by (simp only:)
  with shown show "\<exists>combined_answer.
               final_response = Gia_chu @ name @ Sinh_nam @ ''1999'' @ ''. '' @ combined_answer"
    by (simp only:)
qed

theorem birth_year_derivation_witness:
  "get_fortune env_low ''An'' 25 ''q'' = Inr (Gia_chu @ ''An'' @ Sinh_nam @ ''1999. wait'') \<and>
   current_year env_low = 2024 \<and>
   (\<exists>combined_answer.
      Gia_chu @ ''An'' @ Sinh_nam @ ''1999. wait'' =
        Gia_chu @ ''An'' @ Sinh_nam @ ''1999'' @ ''. '' @ combined_answer)"
proof -
  have g: "get_fortune env_low ''An'' 25 ''q'' = Inr (Gia_chu @ ''An'' @ Sinh_nam @ ''1999. wait'')"
    unfolding env_low_def by code_simp
  have c: "current_year env_low = 2024" by (simp add: env_low_def)
  from birth_year_derivation[OF g] c g show ?thesis by simp
qed

section \<open>The webhook\<close>

text \<open>
  C8. With \<^verbatim>\<open>WEBHOOK_URL\<close> unset, \<^verbatim>\<open>send_webhook\<close> returns without attempting any
  request; whatever the POST does (an exception included), \<^verbatim>\<open>send_webhook\<close> returns
  normally; and neither the URL nor the outcome of the POST changes the fortune computed
  by \<^verbatim>\<open>get_fortune\<close> or shown by the \<^verbatim>\<open>/result\<close> handler.
\<close>

theorem webhook_best_effort:
  "(WEBHOOK_URL e = None \<longrightarrow> send_webhook e name age question = (Inr (), [])) \<and>
   fst (send_webhook e name age question) = Inr () \<and>
   get_fortune (e\<lparr>WEBHOOK_URL := url, http_post := post\<rparr>) name age question =
     get_fortune e name age question \<and>
   map_sum id fst (result (e\<lparr>WEBHOOK_URL := url, http_post := post\<rparr>) name age question) =
     map_sum id fst (result e name age question)"
proof -
  have a: "WEBHOOK_URL e = None \<longrightarrow> send_webhook e name age question = (Inr (), [])"
    by (simp add: send_webhook_def)
  have b: "fst (send_webhook e name age question) = Inr ()"
    by (simp add: send_webhook_def Let_def split: option.splits sum.splits)
  have loop: "select_loop (e\<lparr>WEBHOOK_URL := url, http_post := post\<rparr>) xs acc = select_loop e xs acc"
    for xs acc
    by (induction e xs acc rule: select_loop.induct) (auto split: sum.splits option.splits)
  have c: "get_fortune (e\<lparr>WEBHOOK_URL := url, http_post := post\<rparr>) name age question =
     get_fortune e name age question"
    by (simp add: get_fortune_def resolve_statuses_def select_answers_def loop)
  have d: "map_sum id fst (result (e\<lparr>WEBHOOK_URL := url, http_post := post\<rparr>) name age question) =
     map_sum id fst (result e name age question)"
    unfolding result_def c by (simp split: sum.splits)
  from a b c d show ?thesis by blast
qed

theorem webhook_best_effort_witness:
  "WEBHOOK_URL env_low = None \<and>
   send_webhook env_low ''An'' 25 ''q'' = (Inr (), []) \<and>
   http_post env_unmapped ''http://hook'' ''x'' = Inl RequestError \<and>
   fst (send_webhook env_unmapped ''An'' 25 ''q'') = Inr ()"
proof -
  have n: "WEBHOOK_URL env_low = None" by (simp add: env_low_def)
  have p: "http_post env_unmapped ''http://hook'' ''x'' = Inl RequestError"
    by (simp add: env_unmapped_def)
  from webhook_best_effort[of env_low "''An''" 25 "''q''"]
    webhook_best_effort[of env_unmapped "''An''" 25 "''q''"] n p
  show ?thesis by blast
qed

end
